theory Spec2Isabelle
  imports Main "HOL-Library.Word"
begin

unbundle bit_operations_syntax

section \<open>Data model (uuidv8.go)\<close>

type_synonym byte = "8 word"
type_synonym uint16 = "16 word"
type_synonym uint64 = "64 word"

text \<open>
  Go's error values are formatted messages; the model keeps the kind of each error and
  drops the formatted arguments. \<open>Panic\<close> stands for a run-time panic (an index or a
  slice bound out of range), which Go does not return as an error value.
\<close>

datatype error =
    InvalidNodeLength            \<comment> \<open>"node must be 6 bytes, got %d bytes"\<close>
  | UnsupportedTimestampWidth    \<comment> \<open>"unsupported timestamp bit size: %d"\<close>
  | InvalidFormat                \<comment> \<open>"invalid UUID format"\<close>
  | InvalidLength                \<comment> \<open>"invalid UUID length"\<close>
  | InvalidHexEncoding           \<comment> \<open>hex.InvalidByteError\<close>
  | HexErrLength                 \<comment> \<open>hex.ErrLength\<close>
  | FailedToParse error          \<comment> \<open>"failed to parse UUID: %w"\<close>
  | ObjectNotValid               \<comment> \<open>"object is not a valid UUIDv8"\<close>
  | StringNotValid               \<comment> \<open>"string representation is not a valid UUIDv8"\<close>
  | Panic

record UUIDv8 =
  Timestamp :: uint64
  ClockSeq :: uint16
  Node :: "byte list"

definition variantRFC4122 :: byte where "variantRFC4122 = 2"
definition versionV8 :: byte where "versionV8 = 8"

definition TimestampBits32 :: int where "TimestampBits32 = 32"
definition TimestampBits48 :: int where "TimestampBits48 = 48"
definition TimestampBits60 :: int where "TimestampBits60 = 60"

section \<open>Library functions used by the package\<close>

subsection \<open>encoding/hex and the \<open>%x\<close> verb of fmt\<close>

text \<open>The digit table \<open>"0123456789abcdef"\<close> of fmt and encoding/hex.\<close>

definition ldigits :: string where
  "ldigits = ''0123456789abcdef''"

definition hexdigit :: "byte \<Rightarrow> char" where
  "hexdigit n = ldigits ! unat n"

text \<open>\<open>%x\<close> on a byte slice: two lower-case digits per byte, high nibble first.\<close>

fun hexEncode :: "byte list \<Rightarrow> string" where
  "hexEncode [] = []"
| "hexEncode (b # bs) = hexdigit (drop_bit 4 b) # hexdigit (b AND 0x0F) # hexEncode bs"

text \<open>
  \<open>%0Nx\<close>: the digits, padded on the left up to width N. The package only formats
  slices whose digits fill the width exactly, where no padding is written.
\<close>

definition sprintf_0x :: "nat \<Rightarrow> byte list \<Rightarrow> string" where
  "sprintf_0x width bs =
     (let h = hexEncode bs in replicate (width - length h) (CHR ''0'') @ h)"

text \<open>
  hex's \<open>reverseHexTable\<close>: the value of a hexadecimal digit of either case, and
  \<open>0xff\<close> for every other byte.
\<close>

definition reverseHexTable :: "char \<Rightarrow> byte" where
  "reverseHexTable c =
     (let n = (of_char c :: nat) in
      if 48 \<le> n \<and> n \<le> 57 then of_nat (n - 48)
      else if 97 \<le> n \<and> n \<le> 102 then of_nat (n - 87)
      else if 65 \<le> n \<and> n \<le> 70 then of_nat (n - 55)
      else 0xFF)"

text \<open>
  \<open>hex.DecodeString\<close>: the loop of \<open>hex.Decode\<close> reads two characters per round
  and stops at the first one that is no digit; a trailing single character is a length
  error unless it is itself no digit. The bytes decoded before an error are returned
  together with the error by Go and ignored by every caller here, so the model returns
  the error alone.
\<close>

fun hexDecodeString :: "string \<Rightarrow> error + byte list" where
  "hexDecodeString [] = Inr []"
| "hexDecodeString [p] =
     (if reverseHexTable p > 0x0F then Inl InvalidHexEncoding else Inl HexErrLength)"
| "hexDecodeString (p # q # src) =
     (let a = reverseHexTable p; b = reverseHexTable q in
      if a > 0x0F then Inl InvalidHexEncoding
      else if b > 0x0F then Inl InvalidHexEncoding
      else case hexDecodeString src of
             Inl err \<Rightarrow> Inl err
           | Inr dst \<Rightarrow> Inr ((push_bit 4 a OR b) # dst))"

subsection \<open>The built-in \<open>copy\<close>\<close>

text \<open>
  \<open>copy(dst[off:], src)\<close> overwrites \<open>min (len dst - off) (len src)\<close> bytes of
  \<open>dst\<close> from position \<open>off\<close> on.
\<close>

definition copy_at :: "byte list \<Rightarrow> nat \<Rightarrow> byte list \<Rightarrow> byte list" where
  "copy_at dst off src =
     (let n = min (length dst - off) (length src)
      in take off dst @ take n src @ drop (off + n) dst)"

subsection \<open>encoding/json on a string\<close>

text \<open>
  \<open>json.Marshal\<close> of a Go string: the string between double quotes, with the bytes
  outside \<open>htmlSafeSet\<close> escaped. The model covers ASCII input; bytes from \<open>0x80\<close> on
  (UTF-8 sequences, which Go validates) are passed through, and the package only ever
  marshals the output of \<open>formatUUID\<close>.
\<close>

definition htmlSafe :: "char \<Rightarrow> bool" where
  "htmlSafe c =
     (let n = (of_char c :: nat) in
      32 \<le> n \<and> c \<noteq> CHR ''\"'' \<and> c \<noteq> CHR ''&'' \<and> c \<noteq> CHR ''<'' \<and> c \<noteq> CHR ''>''
        \<and> c \<noteq> CHR 0x5C)"

definition jsonEscape :: "char \<Rightarrow> string" where
  "jsonEscape c =
     (if c = CHR 0x5C \<or> c = CHR ''\"'' then [CHR 0x5C, c]
      else if c = CHR 0x08 then [CHR 0x5C, CHR ''b'']
      else if c = CHR 0x0C then [CHR 0x5C, CHR ''f'']
      else if c = CHR 0x0A then [CHR 0x5C, CHR ''n'']
      else if c = CHR 0x0D then [CHR 0x5C, CHR ''r'']
      else if c = CHR 0x09 then [CHR 0x5C, CHR ''t'']
      else [CHR 0x5C, CHR ''u'', CHR ''0'', CHR ''0'',
            hexdigit (drop_bit 4 (of_char c)), hexdigit (of_char c AND 0x0F)])"

fun jsonBody :: "string \<Rightarrow> string" where
  "jsonBody [] = []"
| "jsonBody (c # cs) = (if htmlSafe c then [c] else jsonEscape c) @ jsonBody cs"

definition jsonMarshalString :: "string \<Rightarrow> string" where
  "jsonMarshalString s = CHR ''\"'' # jsonBody s @ [CHR ''\"'']"

section \<open>helper.go\<close>

text \<open>
  \<open>encodeTimestamp\<close> writes into the caller's slice; the model returns the updated
  slice. An index beyond the slice panics in Go.
\<close>

definition encodeTimestamp :: "byte list \<Rightarrow> uint64 \<Rightarrow> int \<Rightarrow> error + byte list" where
  "encodeTimestamp uuid timestamp timestampBits =
     (if timestampBits = TimestampBits32 then
        (if length uuid < 6 then Inl Panic
         else Inr (uuid[0 := ucast (drop_bit 24 timestamp),
                        1 := ucast (drop_bit 16 timestamp),
                        2 := ucast (drop_bit 8 timestamp),
                        3 := ucast timestamp,
                        4 := 0, 5 := 0]))
      else if timestampBits = TimestampBits48 then
        (if length uuid < 6 then Inl Panic
         else Inr (uuid[0 := ucast (drop_bit 40 timestamp),
                        1 := ucast (drop_bit 32 timestamp),
                        2 := ucast (drop_bit 24 timestamp),
                        3 := ucast (drop_bit 16 timestamp),
                        4 := ucast (drop_bit 8 timestamp),
                        5 := ucast timestamp]))
      else if timestampBits = TimestampBits60 then
        (if length uuid < 7 then Inl Panic
         else Inr (uuid[0 := ucast (drop_bit 52 timestamp),
                        1 := ucast (drop_bit 44 timestamp),
                        2 := ucast (drop_bit 36 timestamp),
                        3 := ucast (drop_bit 28 timestamp),
                        4 := ucast (drop_bit 20 timestamp),
                        5 := ucast (drop_bit 12 timestamp),
                        6 := ucast (drop_bit 4 timestamp)]))
      else Inl UnsupportedTimestampWidth)"

definition decodeTimestamp :: "byte list \<Rightarrow> error + uint64" where
  "decodeTimestamp uuidBytes =
     (if length uuidBytes < 6 then Inl Panic
      else Inr (push_bit 40 (ucast (uuidBytes ! 0)) OR push_bit 32 (ucast (uuidBytes ! 1))
              OR push_bit 24 (ucast (uuidBytes ! 2)) OR push_bit 16 (ucast (uuidBytes ! 3))
              OR push_bit 8 (ucast (uuidBytes ! 4)) OR ucast (uuidBytes ! 5)))"

text \<open>
  The copying loop of \<open>parseUUID\<close>: \<open>uuid\<close> is what is left of the input from index
  \<open>i\<close> on, \<open>j\<close> the write position in \<open>result\<close>.
\<close>

fun parseUUID_loop :: "string \<Rightarrow> nat \<Rightarrow> string \<Rightarrow> error + string" where
  "parseUUID_loop [] j result = Inr result"
| "parseUUID_loop (c # uuid) j result =
     (if c = CHR ''-'' then parseUUID_loop uuid j result
      else if j < length result then parseUUID_loop uuid (Suc j) (result[j := c])
      else Inl Panic)"

definition parseUUID :: "string \<Rightarrow> error + byte list" where
  "parseUUID uuid =
     (if length uuid = 32 then hexDecodeString uuid
      else if length uuid = 36 then
        (if uuid ! 8 \<noteq> CHR ''-'' \<or> uuid ! 13 \<noteq> CHR ''-'' \<or> uuid ! 18 \<noteq> CHR ''-''
            \<or> uuid ! 23 \<noteq> CHR ''-''
         then Inl InvalidFormat
         else case parseUUID_loop uuid 0 (replicate 32 (CHR 0x00)) of
                Inl err \<Rightarrow> Inl err
              | Inr result \<Rightarrow> hexDecodeString result)
      else Inl InvalidLength)"

fun isAllZeroUUID :: "byte list \<Rightarrow> bool" where
  "isAllZeroUUID [] = True"
| "isAllZeroUUID (b # uuidBytes) = (if b \<noteq> 0 then False else isAllZeroUUID uuidBytes)"

text \<open>The slice expression \<open>uuid[10:16]\<close> panics on a slice shorter than 16 bytes.\<close>

definition formatUUID :: "byte list \<Rightarrow> error + string" where
  "formatUUID uuid =
     (if length uuid < 16 then Inl Panic
      else Inr (sprintf_0x 8 (take 4 uuid) @ ''-''
              @ sprintf_0x 4 (take 2 (drop 4 uuid)) @ ''-''
              @ sprintf_0x 4 (take 2 (drop 6 uuid)) @ ''-''
              @ sprintf_0x 4 (take 2 (drop 8 uuid)) @ ''-''
              @ sprintf_0x 12 (take 6 (drop 10 uuid))))"

section \<open>uuidv8.go\<close>

text \<open>
  The buffer \<open>NewWithParams\<close> has built when it reaches its last line, the call of
  \<open>formatUUID\<close>.
\<close>

definition NewWithParams_buf :: "uint64 \<Rightarrow> uint16 \<Rightarrow> byte list \<Rightarrow> int \<Rightarrow> error + byte list" where
  "NewWithParams_buf timestamp clockSeq node timestampBits =
     (if length node \<noteq> 6 then Inl InvalidNodeLength
      else case encodeTimestamp (replicate 16 0) timestamp timestampBits of
             Inl err \<Rightarrow> Inl err
           | Inr uuid0 \<Rightarrow>
               (let uuid1 = uuid0[6 := push_bit 4 versionV8 OR ucast (drop_bit 8 clockSeq)];
                    uuid2 = uuid1[7 := ucast clockSeq];
                    uuid3 = uuid2[7 := (uuid2 ! 7 AND 0x3F) OR push_bit 6 variantRFC4122]
                in Inr (copy_at uuid3 8 node)))"

definition NewWithParams :: "uint64 \<Rightarrow> uint16 \<Rightarrow> byte list \<Rightarrow> int \<Rightarrow> error + string" where
  "NewWithParams timestamp clockSeq node timestampBits =
     (case NewWithParams_buf timestamp clockSeq node timestampBits of
        Inl err \<Rightarrow> Inl err
      | Inr uuid \<Rightarrow> formatUUID uuid)"

definition FromString :: "string \<Rightarrow> error + UUIDv8" where
  "FromString uuid =
     (case parseUUID uuid of
        Inl err \<Rightarrow> Inl (FailedToParse err)
      | Inr uuidBytes \<Rightarrow>
          if length uuidBytes < 14 then Inl Panic
          else Inr \<lparr>Timestamp =
                      push_bit 40 (ucast (uuidBytes ! 0)) OR push_bit 32 (ucast (uuidBytes ! 1))
                      OR push_bit 24 (ucast (uuidBytes ! 2)) OR push_bit 16 (ucast (uuidBytes ! 3))
                      OR push_bit 8 (ucast (uuidBytes ! 4)) OR ucast (uuidBytes ! 5),
                    ClockSeq =
                      push_bit 8 (ucast (uuidBytes ! 6 AND 0x0F)) OR ucast (uuidBytes ! 7),
                    Node = take 6 (drop 8 uuidBytes)\<rparr>)"

text \<open>A nil pointer is \<open>None\<close>; a panic is \<open>Inl Panic\<close>.\<close>

definition FromStringOrNil :: "string \<Rightarrow> error + UUIDv8 option" where
  "FromStringOrNil uuid =
     (case parseUUID uuid of
        Inl err \<Rightarrow> Inr None
      | Inr uuidBytes \<Rightarrow>
          if isAllZeroUUID uuidBytes then Inr None
          else if length uuidBytes < 14 then Inl Panic
          else (case decodeTimestamp (take 6 uuidBytes) of
                  Inl err \<Rightarrow> Inl err
                | Inr timestamp \<Rightarrow>
                    Inr (Some \<lparr>Timestamp = timestamp,
                               ClockSeq =
                                 push_bit 8 (ucast (uuidBytes ! 6 AND 0x0F))
                                 OR ucast (uuidBytes ! 7),
                               Node = take 6 (drop 8 uuidBytes)\<rparr>)))"

definition IsValidUUIDv8 :: "string \<Rightarrow> bool" where
  "IsValidUUIDv8 uuid =
     (case parseUUID uuid of
        Inl err \<Rightarrow> False
      | Inr uuidBytes \<Rightarrow>
          if isAllZeroUUID uuidBytes then False
          else (let version = drop_bit 4 (uuidBytes ! 6);
                    variant = drop_bit 6 (uuidBytes ! 7) AND 0x03
                in version = versionV8 \<and> variant = variantRFC4122))"

text \<open>
  \<open>ToString\<close> returns the empty string when \<open>encodeTimestamp\<close> returns an error.
\<close>

definition ToString_buf :: "UUIDv8 \<Rightarrow> error + byte list" where
  "ToString_buf uuidv8 =
     (case encodeTimestamp (replicate 16 0) (Timestamp uuidv8) TimestampBits48 of
        Inl err \<Rightarrow> Inl err
      | Inr uuid0 \<Rightarrow>
          (let uuid1 = uuid0[6 := push_bit 4 versionV8 OR ucast (drop_bit 8 (ClockSeq uuidv8))];
               uuid2 = uuid1[7 := ucast (ClockSeq uuidv8)];
               uuid3 = uuid2[7 := (uuid2 ! 7 AND 0x3F) OR push_bit 6 variantRFC4122]
           in Inr (copy_at uuid3 8 (Node uuidv8))))"

definition ToString :: "UUIDv8 \<Rightarrow> error + string" where
  "ToString uuidv8 =
     (case ToString_buf uuidv8 of
        Inl Panic \<Rightarrow> Inl Panic
      | Inl err \<Rightarrow> Inr ''''
      | Inr uuid \<Rightarrow> formatUUID uuid)"

definition MarshalJSON :: "UUIDv8 option \<Rightarrow> error + string" where
  "MarshalJSON u =
     (case u of
        None \<Rightarrow> Inl ObjectNotValid
      | Some v \<Rightarrow>
          if length (Node v) \<noteq> 6 \<or> Timestamp v = 0 \<or> ClockSeq v > 0x0FFF
          then Inl ObjectNotValid
          else (case ToString v of
                  Inl err \<Rightarrow> Inl err
                | Inr uuidStr \<Rightarrow>
                    if \<not> IsValidUUIDv8 uuidStr then Inl StringNotValid
                    else Inr (jsonMarshalString uuidStr)))"

section \<open>Notions of the specification\<close>

text \<open>
  The canonical text form as the specification words it: the hexadecimal digits of the
  byte groups [0:4], [4:6], [6:8], [8:10] and [10:16], separated by dashes.
\<close>

definition canonical_text :: "byte list \<Rightarrow> string" where
  "canonical_text b =
     hexEncode (take 4 b) @ ''-'' @ hexEncode (take 2 (drop 4 b)) @ ''-''
     @ hexEncode (take 2 (drop 6 b)) @ ''-'' @ hexEncode (take 2 (drop 8 b)) @ ''-''
     @ hexEncode (take 6 (drop 10 b))"

text \<open>
  The pattern \<open>^[0-9a-f]{8}-[0-9a-f]{4}-[0-9a-f]{4}-[0-9a-f]{4}-[0-9a-f]{12}$\<close> of the
  specification, as a predicate on strings.
\<close>

definition is_lower_hex :: "char \<Rightarrow> bool" where
  "is_lower_hex c = (c \<in> set ''0123456789abcdef'')"

definition matches_canonical :: "string \<Rightarrow> bool" where
  "matches_canonical s =
     (length s = 36
      \<and> list_all is_lower_hex (take 8 s) \<and> s ! 8 = CHR ''-''
      \<and> list_all is_lower_hex (take 4 (drop 9 s)) \<and> s ! 13 = CHR ''-''
      \<and> list_all is_lower_hex (take 4 (drop 14 s)) \<and> s ! 18 = CHR ''-''
      \<and> list_all is_lower_hex (take 4 (drop 19 s)) \<and> s ! 23 = CHR ''-''
      \<and> list_all is_lower_hex (take 12 (drop 24 s)))"

text \<open>
  The input side of \<open>Parse\<close>: hexadecimal digits of either case, the lower-case form of
  a character, the four dash positions of the 36-character shape, and the 32 characters
  that remain beside them.
\<close>

definition is_hex_digit :: "char \<Rightarrow> bool" where
  "is_hex_digit c = (c \<in> set ''0123456789abcdefABCDEF'')"

definition ascii_lower :: "char \<Rightarrow> char" where
  "ascii_lower c =
     (let n = (of_char c :: nat) in if 65 \<le> n \<and> n \<le> 90 then char_of (n + 32) else c)"

definition dashes_ok :: "string \<Rightarrow> bool" where
  "dashes_ok s =
     (s ! 8 = CHR ''-'' \<and> s ! 13 = CHR ''-'' \<and> s ! 18 = CHR ''-'' \<and> s ! 23 = CHR ''-'')"

definition undashed :: "string \<Rightarrow> string" where
  "undashed s =
     take 8 s @ take 4 (drop 9 s) @ take 4 (drop 14 s) @ take 4 (drop 19 s) @ drop 24 s"

definition remaining :: "string \<Rightarrow> string" where
  "remaining s = (if length s = 36 then undashed s else s)"

section \<open>Bytes and hexadecimal digits\<close>

lemma nibble_cases:
  fixes n :: byte
  assumes "n < 16"
  shows "n \<in> {0, 1, 2, 3, 4, 5, 6, 7, 8, 9, 10, 11, 12, 13, 14, 15}"
proof -
  have "unat n < 16" using assms by (simp add: word_less_nat_alt)
  then have "unat n \<in> {0, 1, 2, 3, 4, 5, 6, 7, 8, 9, 10, 11, 12, 13, 14, 15}"
    by (simp; arith)
  then have "word_of_nat (unat n)
      \<in> ((word_of_nat ` {0, 1, 2, 3, 4, 5, 6, 7, 8, 9, 10, 11, 12, 13, 14, 15}) :: byte set)"
    by (rule imageI)
  then show ?thesis by simp
qed

lemma hexdigit_not_dash: "n < 16 \<Longrightarrow> hexdigit n \<noteq> CHR ''-''"
  using nibble_cases[of n] by (auto simp: hexdigit_def ldigits_def)

lemma reverseHexTable_hexdigit: "n < 16 \<Longrightarrow> reverseHexTable (hexdigit n) = n"
  using nibble_cases[of n] by (auto simp: hexdigit_def ldigits_def reverseHexTable_def)

lemma low_nibble_mask: "(0x0F :: byte) = mask 4"
  by (simp add: mask_eq_exp_minus_1)

lemma hi_nibble_less: "drop_bit 4 (b :: byte) < 16"
proof -
  have "unat b < 256" using unsigned_less[of b] by simp
  then have "unat b div 16 < 16" by simp
  then show ?thesis by (simp add: word_less_nat_alt drop_bit_eq_div unat_div)
qed

lemma lo_nibble_less: "(b :: byte) AND 0x0F < 16"
proof -
  have "unat (b AND 0x0F) \<le> unat (0x0F :: byte)"
    by (rule word_and_le1 [THEN word_le_nat_alt [THEN iffD1]])
  then show ?thesis by (simp add: word_less_nat_alt)
qed

lemma nibbles_join: "push_bit 4 (drop_bit 4 b) OR (b AND 0x0F) = (b :: byte)"
  unfolding low_nibble_mask
  by (rule bit_word_eqI) (auto simp: bit_simps)

lemma length_hexEncode [simp]: "length (hexEncode bs) = 2 * length bs"
  by (induction bs) auto

lemma hexEncode_append: "hexEncode (xs @ ys) = hexEncode xs @ hexEncode ys"
  by (induction xs) auto

lemma dash_notin_hexEncode: "CHR ''-'' \<notin> set (hexEncode bs)"
  using hexdigit_not_dash[OF hi_nibble_less] hexdigit_not_dash[OF lo_nibble_less]
  by (induction bs) (auto simp: eq_commute)

lemma filter_hexEncode: "filter (\<lambda>c. c \<noteq> CHR ''-'') (hexEncode bs) = hexEncode bs"
  using dash_notin_hexEncode[of bs] by (auto simp: filter_id_conv)

lemma hexDecodeString_hexEncode: "hexDecodeString (hexEncode bs) = Inr bs"
proof (induction bs)
  case Nil
  show ?case by simp
next
  case (Cons b bs)
  have hi: "reverseHexTable (hexdigit (drop_bit 4 b)) = drop_bit 4 b"
    by (rule reverseHexTable_hexdigit [OF hi_nibble_less])
  have lo: "reverseHexTable (hexdigit (b AND 0x0F)) = b AND 0x0F"
    by (rule reverseHexTable_hexdigit [OF lo_nibble_less])
  have "\<not> drop_bit 4 b > 0x0F" "\<not> b AND 0x0F > 0x0F"
    using hi_nibble_less[of b] lo_nibble_less[of b]
    by (simp_all add: word_less_nat_alt)
  then show ?case
    using Cons.IH by (simp add: hi lo nibbles_join del: drop_bit_word_numeral)
qed

section \<open>The copying loop of parseUUID\<close>

text \<open>
  As long as the characters other than dashes fit into \<open>result\<close> from \<open>j\<close> on, the
  loop does not panic and writes exactly these characters, in order.
\<close>

lemma parseUUID_loop_filter:
  "j + length (filter (\<lambda>c. c \<noteq> CHR ''-'') uuid) \<le> length result \<Longrightarrow>
   parseUUID_loop uuid j result =
     Inr (take j result @ filter (\<lambda>c. c \<noteq> CHR ''-'') uuid
          @ drop (j + length (filter (\<lambda>c. c \<noteq> CHR ''-'') uuid)) result)"
proof (induction uuid arbitrary: j result)
  case Nil
  then show ?case by simp
next
  case (Cons c uuid)
  show ?case
  proof (cases "c = CHR ''-''")
    case True
    with Cons show ?thesis by simp
  next
    case False
    with Cons.prems have j: "j < length result"
      and le: "Suc j + length (filter (\<lambda>c. c \<noteq> CHR ''-'') uuid) \<le> length (result[j := c])"
      by simp_all
    have "take (Suc j) (result[j := c]) = take j result @ [c]"
      using j by (simp add: take_Suc_conv_app_nth)
    with False j Cons.IH[OF le] show ?thesis by simp
  qed
qed

section \<open>Formatting a 16-byte buffer and parsing it back\<close>

lemma take_drop_join: "take n (drop m xs) @ drop (m + n) xs = drop m xs"
  using append_take_drop_id[of n "drop m xs"] by (simp add: add.commute)

lemma groups_join:
  assumes "length (b :: 'a list) = 16"
  shows "take 4 b @ take 2 (drop 4 b) @ take 2 (drop 6 b) @ take 2 (drop 8 b)
           @ take 6 (drop 10 b) = b"
proof -
  have "take 6 (drop 10 b) = drop 10 b" using assms by simp
  moreover have "take 2 (drop 8 b) @ drop 10 b = drop 8 b"
    using take_drop_join[of 2 8 b] by simp
  moreover have "take 2 (drop 6 b) @ drop 8 b = drop 6 b"
    using take_drop_join[of 2 6 b] by simp
  moreover have "take 2 (drop 4 b) @ drop 6 b = drop 4 b"
    using take_drop_join[of 2 4 b] by simp
  ultimately show ?thesis by simp
qed

lemma formatUUID_16: "length b = 16 \<Longrightarrow> formatUUID b = Inr (canonical_text b)"
  by (simp add: formatUUID_def sprintf_0x_def canonical_text_def)

lemma length_canonical_text: "length b = 16 \<Longrightarrow> length (canonical_text b) = 36"
  by (simp add: canonical_text_def)

lemma canonical_text_nonempty: "length b = 16 \<Longrightarrow> canonical_text b \<noteq> []"
  using length_canonical_text[of b] by auto

lemma canonical_text_dashes:
  assumes "length b = 16"
  shows "canonical_text b ! 8 = CHR ''-''" "canonical_text b ! 13 = CHR ''-''"
    "canonical_text b ! 18 = CHR ''-''" "canonical_text b ! 23 = CHR ''-''"
  using assms by (simp_all add: canonical_text_def nth_append)

lemma filter_canonical_text:
  assumes "length b = 16"
  shows "filter (\<lambda>c. c \<noteq> CHR ''-'') (canonical_text b) = hexEncode b"
proof -
  have "filter (\<lambda>c. c \<noteq> CHR ''-'') (canonical_text b) =
      hexEncode (take 4 b @ take 2 (drop 4 b) @ take 2 (drop 6 b) @ take 2 (drop 8 b)
           @ take 6 (drop 10 b))"
    by (simp add: canonical_text_def filter_hexEncode hexEncode_append)
  then show ?thesis by (simp add: groups_join[OF assms])
qed

lemma parseUUID_canonical_text:
  assumes "length b = 16"
  shows "parseUUID (canonical_text b) = Inr b"
proof -
  have "parseUUID_loop (canonical_text b) 0 (replicate 32 (CHR 0x00)) = Inr (hexEncode b)"
    using assms by (subst parseUUID_loop_filter) (simp_all add: filter_canonical_text)
  then show ?thesis
    using assms
    by (simp add: parseUUID_def length_canonical_text canonical_text_dashes
        hexDecodeString_hexEncode)
qed

section \<open>The encoder\<close>

lemma encodeTimestamp_length:
  "encodeTimestamp uuid ts bits = Inr u \<Longrightarrow> length u = length uuid"
  by (auto simp: encodeTimestamp_def split: if_splits)

lemma encodeTimestamp_16:
  assumes "length uuid = 16"
  shows "bits \<notin> {TimestampBits32, TimestampBits48, TimestampBits60} \<Longrightarrow>
           encodeTimestamp uuid ts bits = Inl UnsupportedTimestampWidth"
    and "bits \<in> {TimestampBits32, TimestampBits48, TimestampBits60} \<Longrightarrow>
           \<exists>u. encodeTimestamp uuid ts bits = Inr u \<and> length u = 16"
  using assms by (auto simp: encodeTimestamp_def)

lemma length_copy_at: "off \<le> length dst \<Longrightarrow> length (copy_at dst off src) = length dst"
  by (auto simp: copy_at_def Let_def min_def)

lemma NewWithParams_buf_Inl:
  "length node \<noteq> 6 \<Longrightarrow> NewWithParams_buf ts cs node bits = Inl InvalidNodeLength"
  "length node = 6 \<Longrightarrow> bits \<notin> {TimestampBits32, TimestampBits48, TimestampBits60} \<Longrightarrow>
     NewWithParams_buf ts cs node bits = Inl UnsupportedTimestampWidth"
  by (simp_all add: NewWithParams_buf_def encodeTimestamp_16(1))

lemma NewWithParams_buf_ok:
  assumes "length node = 6" "bits \<in> {TimestampBits32, TimestampBits48, TimestampBits60}"
  shows "\<exists>b. NewWithParams_buf ts cs node bits = Inr b \<and> length b = 16"
proof -
  obtain u where "encodeTimestamp (replicate 16 0) ts bits = Inr u" "length u = 16"
    using encodeTimestamp_16(2)[OF _ assms(2), of "replicate 16 0" ts] by auto
  then show ?thesis
    using assms(1) by (simp add: NewWithParams_buf_def Let_def length_copy_at)
qed

lemma NewWithParams_buf_Inr:
  assumes "NewWithParams_buf ts cs node bits = Inr b"
  shows "length b = 16"
    and "b ! 6 = 0x80 OR ucast (drop_bit 8 cs)"
    and "b ! 7 = (ucast cs AND 0x3F) OR 0x80"
    and "take 6 (drop 8 b) = node"
proof -
  from assms obtain u where len: "length node = 6"
    and u: "encodeTimestamp (replicate 16 0) ts bits = Inr u"
    and b: "b = copy_at (u[6 := push_bit 4 versionV8 OR ucast (drop_bit 8 cs),
                         7 := ucast cs,
                         7 := (ucast cs AND 0x3F) OR push_bit 6 variantRFC4122]) 8 node"
    by (auto simp: NewWithParams_buf_def Let_def split: if_splits sum.splits
        dest: encodeTimestamp_length)
  have lu: "length u = 16" using encodeTimestamp_length[OF u] by simp
  show "length b = 16" using lu by (simp add: b length_copy_at)
  show "b ! 6 = 0x80 OR ucast (drop_bit 8 cs)"
    using lu len by (simp add: b copy_at_def nth_append versionV8_def)
  show "b ! 7 = (ucast cs AND 0x3F) OR 0x80"
    using lu len by (simp add: b copy_at_def nth_append variantRFC4122_def)
  show "take 6 (drop 8 b) = node"
    using lu len by (simp add: b copy_at_def)
qed

section \<open>Parsed buffers and the decoder\<close>

lemma hexDecodeString_length:
  "hexDecodeString xs = Inr bs \<Longrightarrow> length xs = 2 * length bs"
  by (induction xs arbitrary: bs rule: hexDecodeString.induct)
    (auto simp: Let_def split: if_splits sum.splits)

lemma parseUUID_loop_length:
  "parseUUID_loop uuid j result = Inr r \<Longrightarrow> length r = length result"
  by (induction uuid j result rule: parseUUID_loop.induct) (auto split: if_splits)

lemma parseUUID_length: "parseUUID s = Inr b \<Longrightarrow> length b = 16"
  by (auto simp: parseUUID_def split: if_splits sum.splits
      dest!: hexDecodeString_length parseUUID_loop_length)

lemma clockSeq_le:
  "push_bit 8 (ucast ((x :: byte) AND 0x0F)) OR ucast (y :: byte) \<le> (0x0FFF :: uint16)"
proof -
  let ?w = "push_bit 8 (ucast (x AND mask 4)) OR ucast y :: uint16"
  have n: "(0x0F :: byte) = mask 4" by (simp add: mask_eq_exp_minus_1)
  have "?w AND mask 12 = ?w"
    by (rule bit_word_eqI) (auto simp: bit_simps dest: bit_imp_le_length)
  then have "?w < 2 ^ 12"
    by (simp add: mask_eq_iff_w2p word_size)
  then show ?thesis
    unfolding n by (simp add: word_less_nat_alt word_le_nat_alt)
qed

lemma bit_word_rcat:
  "bit (word_rcat (ws :: 'a::len word list) :: 'b::len word) n \<longleftrightarrow>
     n < LENGTH('b) \<and> n div LENGTH('a) < length ws
       \<and> bit (rev ws ! (n div LENGTH('a))) (n mod LENGTH('a))"
  by (simp only: word_rcat_def o_def bit_word_of_int_iff bit_horner_sum_uint_exp_iff
      length_rev)

lemma be48:
  fixes b0 b1 b2 b3 b4 b5 :: byte
  shows "push_bit 40 (ucast b0) OR push_bit 32 (ucast b1) OR push_bit 24 (ucast b2)
      OR push_bit 16 (ucast b3) OR push_bit 8 (ucast b4) OR ucast b5
    = (word_rcat [b0, b1, b2, b3, b4, b5] :: uint64)"
proof (rule bit_word_eqI)
  fix n assume "n < LENGTH(64)"
  let ?l = "push_bit 40 (ucast b0) OR push_bit 32 (ucast b1) OR push_bit 24 (ucast b2)
      OR push_bit 16 (ucast b3) OR push_bit 8 (ucast b4) OR ucast b5 :: uint64"
  have beyond: "\<not> bit b k" if "8 \<le> k" for b :: byte and k
    using that bit_imp_le_length[of b k] by auto
  consider "n < 8" | "8 \<le> n" "n < 16" | "16 \<le> n" "n < 24" | "24 \<le> n" "n < 32"
    | "32 \<le> n" "n < 40" | "40 \<le> n" "n < 48" | "48 \<le> n"
    by linarith
  then show "bit ?l n = bit (word_rcat [b0, b1, b2, b3, b4, b5] :: uint64) n"
  proof cases
    case 1
    then have "n div 8 = 0" "n mod 8 = n" by simp_all
    with 1 show ?thesis by (auto simp add: bit_word_rcat bit_simps)
  next
    case 2
    then have "n div 8 = 1" "n mod 8 = n - 8" by (simp_all add: mod_if div_if)
    with 2 show ?thesis by (auto simp add: bit_word_rcat bit_simps beyond)
  next
    case 3
    then have "n div 8 = 2" "n mod 8 = n - 16" by presburger+
    with 3 show ?thesis by (auto simp add: bit_word_rcat bit_simps beyond)
  next
    case 4
    then have "n div 8 = 3" "n mod 8 = n - 24" by presburger+
    with 4 show ?thesis by (auto simp add: bit_word_rcat bit_simps beyond)
  next
    case 5
    then have "n div 8 = 4" "n mod 8 = n - 32" by presburger+
    with 5 show ?thesis by (auto simp add: bit_word_rcat bit_simps beyond)
  next
    case 6
    then have "n div 8 = 5" "n mod 8 = n - 40" by presburger+
    with 6 show ?thesis using \<open>n < LENGTH(64)\<close> by (auto simp add: bit_word_rcat bit_simps beyond)
  next
    case 7
    then have "6 \<le> n div 8" by presburger
    with 7 show ?thesis by (auto simp add: bit_word_rcat bit_simps beyond)
  qed
qed

lemma take6_nth:
  assumes "6 \<le> length (b :: 'a list)"
  shows "take 6 b = [b ! 0, b ! 1, b ! 2, b ! 3, b ! 4, b ! 5]"
proof -
  have "Suc (Suc (Suc (Suc (Suc (Suc 0))))) \<le> length b"
    using assms by simp
  then obtain x0 x1 x2 x3 x4 x5 r where "b = x0 # x1 # x2 # x3 # x4 # x5 # r"
    by (auto simp: Suc_le_length_iff)
  then show ?thesis by simp
qed

lemma nodes_nth:
  assumes "length (b :: 'a list) = 16"
  shows "take 6 (drop 8 b) = map (\<lambda>i. b ! i) [8..<14]"
  using assms take6_nth[of "drop 8 b"] by (simp add: upt_rec)

lemma FromString_Inr:
  assumes "parseUUID s = Inr b"
  shows "FromString s =
     Inr \<lparr>Timestamp = word_rcat (take 6 b),
          ClockSeq = push_bit 8 (ucast (b ! 6 AND 0x0F)) OR ucast (b ! 7),
          Node = take 6 (drop 8 b)\<rparr>"
proof -
  have len: "length b = 16" using assms by (rule parseUUID_length)
  then have "take 6 b = [b ! 0, b ! 1, b ! 2, b ! 3, b ! 4, b ! 5]"
    by (simp add: take6_nth)
  then show ?thesis
    using assms len by (simp add: FromString_def be48)
qed

lemma FromStringOrNil_Inr:
  assumes "parseUUID s = Inr b"
  shows "FromStringOrNil s =
     Inr (if isAllZeroUUID b then None
          else Some \<lparr>Timestamp = word_rcat (take 6 b),
                     ClockSeq = push_bit 8 (ucast (b ! 6 AND 0x0F)) OR ucast (b ! 7),
                     Node = take 6 (drop 8 b)\<rparr>)"
proof -
  have len: "length b = 16" using assms by (rule parseUUID_length)
  then have t: "take 6 b = [b ! 0, b ! 1, b ! 2, b ! 3, b ! 4, b ! 5]"
    by (simp add: take6_nth)
  have "decodeTimestamp (take 6 b) = Inr (word_rcat (take 6 b))"
    unfolding t by (simp add: decodeTimestamp_def be48)
  then show ?thesis
    using assms len by (simp add: FromStringOrNil_def)
qed

section \<open>The canonical pattern\<close>

lemma is_lower_hex_hexdigit: "n < 16 \<Longrightarrow> is_lower_hex (hexdigit n)"
  using nibble_cases[of n] by (auto simp: hexdigit_def ldigits_def is_lower_hex_def)

lemma lower_hexEncode: "list_all is_lower_hex (hexEncode bs)"
  by (induction bs)
    (simp_all add: is_lower_hex_hexdigit hi_nibble_less lo_nibble_less del: drop_bit_word_numeral)

lemma matches_canonical_text:
  assumes "length b = 16"
  shows "matches_canonical (canonical_text b)"
proof -
  have "take 8 (canonical_text b) = hexEncode (take 4 b)"
    "take 4 (drop 9 (canonical_text b)) = hexEncode (take 2 (drop 4 b))"
    "take 4 (drop 14 (canonical_text b)) = hexEncode (take 2 (drop 6 b))"
    "take 4 (drop 19 (canonical_text b)) = hexEncode (take 2 (drop 8 b))"
    "take 12 (drop 24 (canonical_text b)) = hexEncode (take 6 (drop 10 b))"
    using assms by (simp_all add: canonical_text_def)
  then show ?thesis
    using assms
    by (simp add: matches_canonical_def length_canonical_text canonical_text_dashes
        lower_hexEncode)
qed

section \<open>What parseUUID accepts\<close>

lemma is_hex_digit_nat:
  "is_hex_digit c \<longleftrightarrow>
     (48 \<le> (of_char c :: nat) \<and> (of_char c :: nat) \<le> 57)
     \<or> (97 \<le> (of_char c :: nat) \<and> (of_char c :: nat) \<le> 102)
     \<or> (65 \<le> (of_char c :: nat) \<and> (of_char c :: nat) \<le> 70)"
proof -
  have "is_hex_digit c \<longleftrightarrow>
      (of_char c :: nat) \<in> of_char ` set ''0123456789abcdefABCDEF''"
    unfolding is_hex_digit_def by (rule inj_image_mem_iff[OF inj_of_char, symmetric])
  also have "\<dots> \<longleftrightarrow> (of_char c :: nat) \<in>
      {48, 49, 50, 51, 52, 53, 54, 55, 56, 57, 97, 98, 99, 100, 101, 102,
       65, 66, 67, 68, 69, 70}"
    by simp
  also have "\<dots> \<longleftrightarrow> (48 \<le> (of_char c :: nat) \<and> (of_char c :: nat) \<le> 57)
     \<or> (97 \<le> (of_char c :: nat) \<and> (of_char c :: nat) \<le> 102)
     \<or> (65 \<le> (of_char c :: nat) \<and> (of_char c :: nat) \<le> 70)"
    by (simp; arith)
  finally show ?thesis .
qed


lemma hex_digit_table:
  assumes "is_hex_digit c"
  shows "reverseHexTable c < 16" and "hexdigit (reverseHexTable c) = ascii_lower c"
  using assms
  by (auto simp: is_hex_digit_def reverseHexTable_def hexdigit_def ldigits_def
      ascii_lower_def char_of_def bit_0)

lemma not_hex_digit_table: "\<not> is_hex_digit c \<Longrightarrow> reverseHexTable c = 0xFF"
  by (auto simp: is_hex_digit_nat reverseHexTable_def Let_def)

lemma table_gt_iff: "reverseHexTable c > 0x0F \<longleftrightarrow> \<not> is_hex_digit c"
proof (cases "is_hex_digit c")
  case True
  then show ?thesis
    using hex_digit_table(1)[of c] by (simp add: word_less_nat_alt)
next
  case False
  then show ?thesis by (simp add: not_hex_digit_table)
qed

lemma nibbles_split:
  fixes a b :: byte
  assumes "a < 16" "b < 16"
  shows "drop_bit 4 (push_bit 4 a OR b) = a" and "(push_bit 4 a OR b) AND 0x0F = b"
proof -
  have a: "a AND mask 4 = a" and b: "b AND mask 4 = b"
    using assms by (simp_all add: less_mask_eq)
  have nb: "\<not> bit b n" if "4 \<le> n" for n
  proof
    assume "bit b n"
    then have "bit (b AND mask 4) n" by (simp only: b)
    with that show False by (simp add: bit_simps)
  qed
  have na: "\<not> bit a n" if "4 \<le> n" for n
  proof
    assume "bit a n"
    then have "bit (a AND mask 4) n" by (simp only: a)
    with that show False by (simp add: bit_simps)
  qed
  have na': "n < 4" if "bit a n" for n
    using na[of n] that by (cases "n < 4") simp_all
  show "drop_bit 4 (push_bit 4 a OR b) = a"
    by (rule bit_word_eqI) (auto simp: bit_simps nb dest: na')
  have nb': "n < 4" if "bit b n" for n
    using nb[of n] that by (cases "n < 4") simp_all
  show "(push_bit 4 a OR b) AND 0x0F = b"
    unfolding low_nibble_mask
    by (rule bit_word_eqI) (auto simp: bit_simps dest: nb')
qed


lemma hexDecodeString_bad:
  "even (length xs) \<Longrightarrow> \<not> list_all is_hex_digit xs \<Longrightarrow>
   hexDecodeString xs = Inl InvalidHexEncoding"
  by (induction xs rule: hexDecodeString.induct)
    (auto simp: Let_def table_gt_iff split: sum.splits)

lemma hexDecodeString_good:
  "even (length xs) \<Longrightarrow> list_all is_hex_digit xs \<Longrightarrow>
   \<exists>b. hexDecodeString xs = Inr b \<and> hexEncode b = map ascii_lower xs"
proof (induction xs rule: hexDecodeString.induct)
  case 1
  then show ?case by simp
next
  case (2 p)
  then show ?case by simp
next
  case (3 p q src)
  then obtain b where b: "hexDecodeString src = Inr b" "hexEncode b = map ascii_lower src"
    by (auto simp: Let_def table_gt_iff)
  have p: "is_hex_digit p" and q: "is_hex_digit q" using 3 by simp_all
  have "hexDecodeString (p # q # src)
      = Inr ((push_bit 4 (reverseHexTable p) OR reverseHexTable q) # b)"
    using p q b by (simp add: Let_def table_gt_iff)
  moreover have "hexEncode ((push_bit 4 (reverseHexTable p) OR reverseHexTable q) # b)
      = map ascii_lower (p # q # src)"
    using b nibbles_split[OF hex_digit_table(1)[OF p] hex_digit_table(1)[OF q]]
      hex_digit_table(2)[OF p] hex_digit_table(2)[OF q]
    by (simp del: drop_bit_word_numeral)
  ultimately show ?case by blast
qed

lemma drop_step:
  assumes "m + n < length xs"
  shows "drop m xs = take n (drop m xs) @ xs ! (m + n) # drop (Suc (m + n)) xs"
  using id_take_nth_drop[of n "drop m xs"] assms by (simp add: add.commute)

lemma split36:
  assumes "length (s :: 'a list) = 36"
  shows "s = take 8 s @ s ! 8 # take 4 (drop 9 s) @ s ! 13 # take 4 (drop 14 s) @ s ! 18
             # take 4 (drop 19 s) @ s ! 23 # drop 24 s"
proof -
  have "s = take 8 s @ s ! 8 # drop 9 s"
    using drop_step[of 0 8 s] assms by simp
  moreover have "drop 9 s = take 4 (drop 9 s) @ s ! 13 # drop 14 s"
    using drop_step[of 9 4 s] assms by simp
  moreover have "drop 14 s = take 4 (drop 14 s) @ s ! 18 # drop 19 s"
    using drop_step[of 14 4 s] assms by simp
  moreover have "drop 19 s = take 4 (drop 19 s) @ s ! 23 # drop 24 s"
    using drop_step[of 19 4 s] assms by simp
  ultimately show ?thesis by metis
qed

lemma filter_undashed:
  assumes "length s = 36" "dashes_ok s"
  shows "filter (\<lambda>c. c \<noteq> CHR ''-'') s = filter (\<lambda>c. c \<noteq> CHR ''-'') (undashed s)"
proof -
  have "filter (\<lambda>c. c \<noteq> CHR ''-'') s =
      filter (\<lambda>c. c \<noteq> CHR ''-'') (take 8 s @ s ! 8 # take 4 (drop 9 s) @ s ! 13
        # take 4 (drop 14 s) @ s ! 18 # take 4 (drop 19 s) @ s ! 23 # drop 24 s)"
    using split36[OF assms(1)] by simp
  also have "\<dots> = filter (\<lambda>c. c \<noteq> CHR ''-'') (undashed s)"
    using assms(2) by (simp add: dashes_ok_def undashed_def)
  finally show ?thesis .
qed

lemma length_undashed: "length s = 36 \<Longrightarrow> length (undashed s) = 32"
  by (simp add: undashed_def)

lemma dash_not_hex: "\<not> is_hex_digit (CHR ''-'')" "\<not> is_hex_digit (CHR 0x00)"
  by (simp_all add: is_hex_digit_def)

lemma parseUUID_36:
  assumes len: "length s = 36" and d: "dashes_ok s"
  shows "\<not> list_all is_hex_digit (undashed s) \<Longrightarrow> parseUUID s = Inl InvalidHexEncoding"
    and "list_all is_hex_digit (undashed s) \<Longrightarrow>
           \<exists>b. parseUUID s = Inr b \<and> hexEncode b = map ascii_lower (undashed s)"
proof -
  let ?f = "filter (\<lambda>c. c \<noteq> CHR ''-'') (undashed s)"
  let ?r = "?f @ replicate (32 - length ?f) (CHR 0x00)"
  have lf: "length ?f \<le> 32"
    using length_filter_le[of "\<lambda>c. c \<noteq> CHR ''-''" "undashed s"] length_undashed[OF len]
    by simp
  have loop: "parseUUID_loop s 0 (replicate 32 (CHR 0x00)) = Inr ?r"
    using lf by (subst parseUUID_loop_filter) (simp_all add: filter_undashed[OF len d])
  have p: "parseUUID s = hexDecodeString ?r"
    using len d loop by (simp add: parseUUID_def dashes_ok_def)
  have ev: "even (length ?r)" using lf by simp
  {
    assume bad: "\<not> list_all is_hex_digit (undashed s)"
    have "\<not> list_all is_hex_digit ?r"
    proof (cases "CHR ''-'' \<in> set (undashed s)")
      case True
      then have "length ?f < length (undashed s)"
        by (simp add: length_filter_less)
      then have "0 < 32 - length ?f" using length_undashed[OF len] by simp
      then show ?thesis
        by (cases "32 - length ?f") (simp_all add: dash_not_hex)
    next
      case False
      then have "?f = undashed s" by (auto simp: filter_id_conv)
      then show ?thesis using bad by simp
    qed
    then show "parseUUID s = Inl InvalidHexEncoding"
      unfolding p using ev by (rule hexDecodeString_bad[rotated])
  }
  {
    assume good: "list_all is_hex_digit (undashed s)"
    then have "CHR ''-'' \<notin> set (undashed s)"
      using dash_not_hex(1) by (auto simp: list_all_iff)
    then have f: "?f = undashed s" by (auto simp: filter_id_conv)
    then have "?r = undashed s" using length_undashed[OF len] by simp
    then show "\<exists>b. parseUUID s = Inr b \<and> hexEncode b = map ascii_lower (undashed s)"
      using hexDecodeString_good[of "undashed s"] good length_undashed[OF len]
      by (simp add: p)
  }
qed

lemma parseUUID_32:
  assumes len: "length s = 32"
  shows "\<not> list_all is_hex_digit s \<Longrightarrow> parseUUID s = Inl InvalidHexEncoding"
    and "list_all is_hex_digit s \<Longrightarrow>
           \<exists>b. parseUUID s = Inr b \<and> hexEncode b = map ascii_lower s"
  using len hexDecodeString_bad[of s] hexDecodeString_good[of s]
  by (simp_all add: parseUUID_def)

section \<open>Claims\<close>

text \<open>
  C6. \<open>NewWithParams\<close> returns an error if and only if the node is not 6 bytes long
  (the node-length error, checked first) or \<open>timestampBits\<close> is none of 32, 48 and 60
  (the unsupported-width error); for a node of 6 bytes and a supported width it succeeds,
  for every timestamp and clock sequence, and returns a non-empty string.
\<close>

theorem NewWithParams_errors:
  "(isl (NewWithParams ts cs node bits) \<longleftrightarrow>
      length node \<noteq> 6 \<or> bits \<notin> {TimestampBits32, TimestampBits48, TimestampBits60})
   \<and> (length node \<noteq> 6 \<longrightarrow> NewWithParams ts cs node bits = Inl InvalidNodeLength)
   \<and> (length node = 6 \<and> bits \<notin> {TimestampBits32, TimestampBits48, TimestampBits60} \<longrightarrow>
        NewWithParams ts cs node bits = Inl UnsupportedTimestampWidth)
   \<and> (length node = 6 \<and> bits \<in> {TimestampBits32, TimestampBits48, TimestampBits60} \<longrightarrow>
        (\<exists>s. NewWithParams ts cs node bits = Inr s \<and> s \<noteq> []))"
proof -
  have bad_node: "NewWithParams ts cs node bits = Inl InvalidNodeLength"
    if "length node \<noteq> 6"
    using that by (simp add: NewWithParams_def NewWithParams_buf_Inl(1))
  have bad_bits: "NewWithParams ts cs node bits = Inl UnsupportedTimestampWidth"
    if "length node = 6" "bits \<notin> {TimestampBits32, TimestampBits48, TimestampBits60}"
    using that by (simp add: NewWithParams_def NewWithParams_buf_Inl(2))
  have ok: "\<exists>s. NewWithParams ts cs node bits = Inr s \<and> s \<noteq> []"
    if len: "length node = 6"
      and bits: "bits \<in> {TimestampBits32, TimestampBits48, TimestampBits60}"
  proof -
    obtain b where "NewWithParams_buf ts cs node bits = Inr b" "length b = 16"
      using NewWithParams_buf_ok[OF len bits] by auto
    then show ?thesis
      by (simp add: NewWithParams_def formatUUID_16 canonical_text_nonempty)
  qed
  show ?thesis
  proof (cases "length node = 6")
    case False
    then show ?thesis using bad_node by simp
  next
    case len: True
    show ?thesis
    proof (cases "bits \<in> {TimestampBits32, TimestampBits48, TimestampBits60}")
      case True
      then show ?thesis using ok[OF len True] len by auto
    next
      case False
      then show ?thesis using bad_bits[OF len False] len by simp
    qed
  qed
qed

theorem NewWithParams_errors_witness:
  "NewWithParams 1 0 [] 48 = Inl InvalidNodeLength
   \<and> NewWithParams 1 0 [1, 2, 3, 4, 5, 6] 100 = Inl UnsupportedTimestampWidth
   \<and> (\<exists>s. NewWithParams 1 0 [1, 2, 3, 4, 5, 6] 60 = Inr s \<and> s \<noteq> [])"
  using NewWithParams_errors[of 1 0 "[]" 48]
    NewWithParams_errors[of 1 0 "[1, 2, 3, 4, 5, 6]" 100]
    NewWithParams_errors[of 1 0 "[1, 2, 3, 4, 5, 6]" 60]
  by (simp add: TimestampBits32_def TimestampBits48_def TimestampBits60_def)

text \<open>
  C9. For every 16-byte buffer \<open>formatUUID\<close> returns, without failing, the lower-case
  hexadecimal digits of the byte groups [0:4], [4:6], [6:8], [8:10], [10:16] joined by
  dashes: a string of 36 characters that matches the canonical pattern.
\<close>

theorem formatUUID_canonical:
  "length b = 16 \<Longrightarrow>
   formatUUID b = Inr (canonical_text b)
   \<and> length (canonical_text b) = 36
   \<and> matches_canonical (canonical_text b)"
  by (simp add: formatUUID_16 length_canonical_text matches_canonical_text)

theorem formatUUID_canonical_witness:
  "length [1, 2, 3, 4, 5, 6, 0x80, 0x80, 1, 2, 3, 4, 5, 6, 0, 0 :: byte] = 16
   \<and> formatUUID [1, 2, 3, 4, 5, 6, 0x80, 0x80, 1, 2, 3, 4, 5, 6, 0, 0] =
       Inr (canonical_text [1, 2, 3, 4, 5, 6, 0x80, 0x80, 1, 2, 3, 4, 5, 6, 0, 0])
   \<and> matches_canonical (canonical_text [1, 2, 3, 4, 5, 6, 0x80, 0x80, 1, 2, 3, 4, 5, 6, 0, 0])"
  using formatUUID_canonical[of "[1, 2, 3, 4, 5, 6, 0x80, 0x80, 1, 2, 3, 4, 5, 6, 0, 0]"]
  by simp

text \<open>
  C4. Every buffer built by the encoder, for any timestamp, clock sequence, node and
  width it accepts, is formatted without failure, and parsing the formatted string gives
  the same buffer back, byte for byte. Nothing in the two functions looks at the version
  or the variant bits: the witness is a buffer whose version nibble is 9.
\<close>

theorem text_round_trip:
  "NewWithParams_buf ts cs node bits = Inr b \<Longrightarrow>
   formatUUID b = Inr (canonical_text b) \<and> parseUUID (canonical_text b) = Inr b"
  using NewWithParams_buf_Inr(1)[of ts cs node bits b]
  by (simp add: formatUUID_16 parseUUID_canonical_text)

theorem text_round_trip_witness:
  "NewWithParams_buf 1 0x1000 [1, 2, 3, 4, 5, 6] 48 =
     Inr [0, 0, 0, 0, 0, 1, 0x90, 0x80, 1, 2, 3, 4, 5, 6, 0, 0]
   \<and> parseUUID (canonical_text [0, 0, 0, 0, 0, 1, 0x90, 0x80, 1, 2, 3, 4, 5, 6, 0, 0]) =
       Inr [0, 0, 0, 0, 0, 1, 0x90, 0x80, 1, 2, 3, 4, 5, 6, 0, 0]"
proof -
  have e: "NewWithParams_buf 1 0x1000 [1, 2, 3, 4, 5, 6] 48 =
     Inr [0, 0, 0, 0, 0, 1, 0x90, 0x80, 1, 2, 3, 4, 5, 6, 0, 0]"
    by code_simp
  show ?thesis using text_round_trip[OF e] e by simp
qed

text \<open>
  C7. Whenever \<open>parseUUID\<close> succeeds, its result has 16 bytes, and \<open>FromString\<close>
  returns, without any error of its own, the record whose timestamp is the big-endian
  48-bit integer of bytes 0 to 5, whose clock sequence is
  \<open>(b[6] & 0x0F) << 8 | b[7]\<close> and whose node is bytes 8 to 13. \<open>FromStringOrNil\<close>,
  which decodes the timestamp through \<open>decodeTimestamp\<close>, returns the same record
  unless the buffer is all zero.
\<close>

theorem FromString_decode:
  "parseUUID s = Inr b \<Longrightarrow>
   length b = 16
   \<and> FromString s =
       Inr \<lparr>Timestamp = word_rcat [b ! 0, b ! 1, b ! 2, b ! 3, b ! 4, b ! 5],
            ClockSeq = push_bit 8 (ucast (b ! 6 AND 0x0F)) OR ucast (b ! 7),
            Node = [b ! 8, b ! 9, b ! 10, b ! 11, b ! 12, b ! 13]\<rparr>
   \<and> FromStringOrNil s =
       Inr (if isAllZeroUUID b then None
            else Some \<lparr>Timestamp = word_rcat [b ! 0, b ! 1, b ! 2, b ! 3, b ! 4, b ! 5],
                       ClockSeq = push_bit 8 (ucast (b ! 6 AND 0x0F)) OR ucast (b ! 7),
                       Node = [b ! 8, b ! 9, b ! 10, b ! 11, b ! 12, b ! 13]\<rparr>)"
proof -
  assume p: "parseUUID s = Inr b"
  have len: "length b = 16" using p by (rule parseUUID_length)
  have t: "take 6 b = [b ! 0, b ! 1, b ! 2, b ! 3, b ! 4, b ! 5]"
    using len by (simp add: take6_nth)
  have n: "take 6 (drop 8 b) = [b ! 8, b ! 9, b ! 10, b ! 11, b ! 12, b ! 13]"
    using len by (simp add: nodes_nth upt_rec)
  show ?thesis
    using FromString_Inr[OF p] FromStringOrNil_Inr[OF p] len by (simp add: t n)
qed

theorem FromString_decode_witness:
  "parseUUID ''00000000-0001-9080-0102-030405060000'' =
     Inr [0, 0, 0, 0, 0, 1, 0x90, 0x80, 1, 2, 3, 4, 5, 6, 0, 0]
   \<and> FromString ''00000000-0001-9080-0102-030405060000'' =
       Inr \<lparr>Timestamp = 1, ClockSeq = 0x80, Node = [1, 2, 3, 4, 5, 6]\<rparr>"
proof -
  have p: "parseUUID ''00000000-0001-9080-0102-030405060000'' =
     Inr [0, 0, 0, 0, 0, 1, 0x90, 0x80, 1, 2, 3, 4, 5, 6, 0, 0]"
    by code_simp
  have w: "(word_rcat [0, 0, 0, 0, 0, 1 :: byte] :: uint64) = 1"
    by (simp add: word_rcat_def)
  show ?thesis using FromString_decode[OF p] p by (simp add: w)
qed

text \<open>
  C10. Every record returned by \<open>FromString\<close>, and every non-nil record returned by
  \<open>FromStringOrNil\<close>, has a clock sequence of at most 4095 and a node of exactly 6
  bytes, whatever the version and variant bits of the input are.
\<close>

theorem parsed_invariant:
  "(FromString s = Inr r \<longrightarrow> ClockSeq r \<le> 0x0FFF \<and> length (Node r) = 6)
   \<and> (FromStringOrNil s = Inr (Some r) \<longrightarrow> ClockSeq r \<le> 0x0FFF \<and> length (Node r) = 6)"
proof (cases "parseUUID s")
  case (Inl e)
  then show ?thesis by (simp add: FromString_def FromStringOrNil_def)
next
  case (Inr b)
  have len: "length b = 16" using Inr by (rule parseUUID_length)
  show ?thesis
    using FromString_Inr[OF Inr] FromStringOrNil_Inr[OF Inr] len
    by (auto simp: clockSeq_le split: if_splits)
qed

theorem parsed_invariant_witness:
  "FromString ''ffffffffffffffffffffffffffffffff'' =
     Inr \<lparr>Timestamp = 0xFFFFFFFFFFFF, ClockSeq = 0x0FFF,
          Node = [0xFF, 0xFF, 0xFF, 0xFF, 0xFF, 0xFF]\<rparr>
   \<and> ClockSeq \<lparr>Timestamp = 0xFFFFFFFFFFFF, ClockSeq = 0x0FFF,
          Node = [0xFF, 0xFF, 0xFF, 0xFF, 0xFF, 0xFF]\<rparr> \<le> 0x0FFF"
proof -
  have f: "FromString ''ffffffffffffffffffffffffffffffff'' =
     Inr \<lparr>Timestamp = 0xFFFFFFFFFFFF, ClockSeq = 0x0FFF,
          Node = [0xFF, 0xFF, 0xFF, 0xFF, 0xFF, 0xFF]\<rparr>"
    by code_simp
  show ?thesis
    using parsed_invariant[of "''ffffffffffffffffffffffffffffffff''"
        "\<lparr>Timestamp = 0xFFFFFFFFFFFF, ClockSeq = 0x0FFF,
          Node = [0xFF, 0xFF, 0xFF, 0xFF, 0xFF, 0xFF]\<rparr>"] f
    by simp
qed

text \<open>
  C8. \<open>parseUUID\<close> fails with the length error when the input has neither 32 nor 36
  characters, and with the format error when it has 36 and one of the positions 8, 13,
  18, 23 holds no dash. Otherwise it decodes the 32 characters beside these positions:
  it fails with the hex error exactly when one of them is no hexadecimal digit, and else
  returns the 16 bytes whose lower-case hexadecimal digits are these characters in lower
  case, so that the case of the input does not matter.
\<close>

theorem parseUUID_taxonomy:
  "(length s \<noteq> 32 \<and> length s \<noteq> 36 \<longrightarrow> parseUUID s = Inl InvalidLength)
   \<and> (length s = 36 \<and> \<not> dashes_ok s \<longrightarrow> parseUUID s = Inl InvalidFormat)
   \<and> (length s = 32 \<or> length s = 36 \<and> dashes_ok s \<longrightarrow>
        (\<not> list_all is_hex_digit (remaining s) \<longrightarrow> parseUUID s = Inl InvalidHexEncoding)
        \<and> (list_all is_hex_digit (remaining s) \<longrightarrow>
             (\<exists>b. parseUUID s = Inr b \<and> length b = 16
                  \<and> hexEncode b = map ascii_lower (remaining s))))"
proof (intro conjI impI)
  assume "length s \<noteq> 32 \<and> length s \<noteq> 36"
  then show "parseUUID s = Inl InvalidLength" by (simp add: parseUUID_def)
next
  assume "length s = 36 \<and> \<not> dashes_ok s"
  then show "parseUUID s = Inl InvalidFormat"
    by (auto simp: parseUUID_def dashes_ok_def)
next
  assume shape: "length s = 32 \<or> length s = 36 \<and> dashes_ok s"
    and bad: "\<not> list_all is_hex_digit (remaining s)"
  from shape show "parseUUID s = Inl InvalidHexEncoding"
  proof
    assume "length s = 32"
    with bad show ?thesis by (simp add: remaining_def parseUUID_32(1))
  next
    assume "length s = 36 \<and> dashes_ok s"
    with bad show ?thesis by (simp add: remaining_def parseUUID_36(1))
  qed
next
  assume shape: "length s = 32 \<or> length s = 36 \<and> dashes_ok s"
    and good: "list_all is_hex_digit (remaining s)"
  from shape have "\<exists>b. parseUUID s = Inr b \<and> hexEncode b = map ascii_lower (remaining s)"
  proof
    assume "length s = 32"
    with good show ?thesis by (simp add: remaining_def parseUUID_32(2))
  next
    assume "length s = 36 \<and> dashes_ok s"
    with good show ?thesis by (simp add: remaining_def parseUUID_36(2))
  qed
  then show "\<exists>b. parseUUID s = Inr b \<and> length b = 16
      \<and> hexEncode b = map ascii_lower (remaining s)"
    using parseUUID_length by blast
qed

theorem parseUUID_taxonomy_witness:
  "parseUUID ''invalid-uuid'' = Inl InvalidLength
   \<and> parseUUID ''000000000-000-0000-0000-000000000000'' = Inl InvalidFormat
   \<and> parseUUID ''-0000000-0000-0000-0000-000000000000'' = Inl InvalidHexEncoding
   \<and> parseUUID ''0000000g000000000000000000000000'' = Inl InvalidHexEncoding
   \<and> (\<exists>b. parseUUID ''ABCDEF00-0000-0000-0000-00000000000a'' = Inr b \<and> length b = 16
          \<and> hexEncode b = ''abcdef0000000000000000000000000a'')
   \<and> (\<exists>b. parseUUID ''ABCDEF0000000000000000000000000a'' = Inr b \<and> length b = 16
          \<and> hexEncode b = ''abcdef0000000000000000000000000a'')"
proof -
  have 1: "length ''invalid-uuid'' \<noteq> 32 \<and> length ''invalid-uuid'' \<noteq> 36" by simp
  have 2: "length ''000000000-000-0000-0000-000000000000'' = 36
      \<and> \<not> dashes_ok ''000000000-000-0000-0000-000000000000''"
    by (simp add: dashes_ok_def)
  have 3: "length ''-0000000-0000-0000-0000-000000000000'' = 36
      \<and> dashes_ok ''-0000000-0000-0000-0000-000000000000''"
    "\<not> list_all is_hex_digit (remaining ''-0000000-0000-0000-0000-000000000000'')"
    by (simp_all add: dashes_ok_def remaining_def undashed_def is_hex_digit_def)
  have 4: "length ''0000000g000000000000000000000000'' = 32"
    "\<not> list_all is_hex_digit (remaining ''0000000g000000000000000000000000'')"
    by (simp_all add: remaining_def is_hex_digit_def)
  have 5: "length ''ABCDEF00-0000-0000-0000-00000000000a'' = 36
      \<and> dashes_ok ''ABCDEF00-0000-0000-0000-00000000000a''"
    "list_all is_hex_digit (remaining ''ABCDEF00-0000-0000-0000-00000000000a'')"
    "map ascii_lower (remaining ''ABCDEF00-0000-0000-0000-00000000000a'')
       = ''abcdef0000000000000000000000000a''"
    by (simp_all add: dashes_ok_def remaining_def undashed_def is_hex_digit_def
        ascii_lower_def char_of_def bit_0)
  have 6: "length ''ABCDEF0000000000000000000000000a'' = 32"
    "list_all is_hex_digit (remaining ''ABCDEF0000000000000000000000000a'')"
    "map ascii_lower (remaining ''ABCDEF0000000000000000000000000a'')
       = ''abcdef0000000000000000000000000a''"
    by (simp_all add: remaining_def is_hex_digit_def ascii_lower_def char_of_def bit_0)
  show ?thesis
    using parseUUID_taxonomy[of "''invalid-uuid''"] 1
      parseUUID_taxonomy[of "''000000000-000-0000-0000-000000000000''"] 2
      parseUUID_taxonomy[of "''-0000000-0000-0000-0000-000000000000''"] 3
      parseUUID_taxonomy[of "''0000000g000000000000000000000000''"] 4
      parseUUID_taxonomy[of "''ABCDEF00-0000-0000-0000-00000000000a''"] 5
      parseUUID_taxonomy[of "''ABCDEF0000000000000000000000000a''"] 6
    by metis
qed

end
